theory Spec2Isabelle
  imports Complex_Main "HOL-Library.Word"
begin

section \<open>Data model of \<^verbatim>\<open>FulfillmentStore\<close> (src/app.js)\<close>

text \<open>
  A timeline entry, as the object literals of \<^verbatim>\<open>createFulfillment\<close> build it. The
  JavaScript \<^verbatim>\<open>timestamp\<close> is \<^verbatim>\<open>null\<close> or an ISO string: an option.
\<close>

record timeline_entry =
  stage :: string
  title :: string
  description :: string
  timestamp :: "string option"
  completed :: bool

text \<open>
  The argument \<^verbatim>\<open>data\<close> of \<^verbatim>\<open>createFulfillment\<close> carries four strings; a
  fulfillment object carries the same four and the fields the store adds. The status is
  a JavaScript string (\<^verbatim>\<open>updateStatus\<close> stores whatever string it is given), so it is
  a string here. The field \<^verbatim>\<open>id\<close> is called \<open>id_f\<close>, the name \<open>id\<close> being taken.
\<close>

record data =
  itemName :: string
  personA :: string
  personB :: string
  personC :: string

record fulfillment = data +
  id_f :: string
  status :: string
  qrCodeUsed :: bool
  passwordHash :: string
  passwordUsed :: bool
  createdAt :: string
  timeline :: "timeline_entry list"

text \<open>
  The two effects of the store on its environment: \<^verbatim>\<open>saveToStorage\<close> writes the
  serialised collection under the key \<^verbatim>\<open>'fulfillments'\<close>, and \<^verbatim>\<open>notify\<close> hands the
  collection to the listeners. Each is logged with the collection it was given, in the
  order the calls happen.
\<close>

datatype effect = SetItem "fulfillment list" | Notify "fulfillment list"

record store =
  fulfillments :: "fulfillment list"
  effects :: "effect list"

text \<open>The object the two checkpoint operations return.\<close>

record result =
  success :: bool
  message :: string
  fulfillment_opt :: "fulfillment option"

section \<open>Helpers of the JavaScript platform\<close>

text \<open>
  \<^verbatim>\<open>Array.prototype.find\<close> is \<^const>\<open>find\<close>. The source mutates the object that
  \<^verbatim>\<open>find\<close> returned, which is the first match in the array: \<open>update_first\<close>.
\<close>

fun update_first :: "('a \<Rightarrow> bool) \<Rightarrow> ('a \<Rightarrow> 'a) \<Rightarrow> 'a list \<Rightarrow> 'a list" where
  "update_first P g [] = []"
| "update_first P g (x # xs) = (if P x then g x # xs else x # update_first P g xs)"

text \<open>\<^verbatim>\<open>Number.prototype.toString\<close> in base 10, on integers.\<close>

definition digit :: "nat \<Rightarrow> char" where
  "digit d = ''0123456789'' ! d"

fun toString_nat :: "nat \<Rightarrow> string" where
  "toString_nat n =
     (if n < 10 then [digit n] else toString_nat (n div 10) @ [digit (n mod 10)])"

declare toString_nat.simps [simp del]

definition toString :: "int \<Rightarrow> string" where
  "toString i = (if i < 0 then CHR ''-'' # toString_nat (nat (- i)) else toString_nat (nat i))"

text \<open>
  \<^verbatim>\<open>String.prototype.toUpperCase\<close> and \<^verbatim>\<open>trim\<close>, on ASCII: the letters a to z are
  mapped to A to Z, and the white space trimmed is space, tab, line feed, vertical tab,
  form feed and carriage return.
\<close>

definition upper_char :: "char \<Rightarrow> char" where
  "upper_char c =
     (case map_of (zip ''abcdefghijklmnopqrstuvwxyz'' ''ABCDEFGHIJKLMNOPQRSTUVWXYZ'') c of
        None \<Rightarrow> c | Some u \<Rightarrow> u)"

definition toUpperCase :: "string \<Rightarrow> string" where
  "toUpperCase s = map upper_char s"



text \<open>\<^verbatim>\<open>s.substr(start, len)\<close> for non-negative arguments.\<close>

definition substr :: "nat \<Rightarrow> nat \<Rightarrow> string \<Rightarrow> string" where
  "substr start len s = take len (drop start s)"

subsection \<open>JSON text\<close>

text \<open>
  \<^verbatim>\<open>JSON.parse\<close> of the platform, as a recursive-descent parser of the JSON grammar
  (ECMA-404). A value keeps the characters of a number and of a string as they are
  written in the text (no conversion to a double, no decoding of escapes); an object
  keeps its members in the order of the text. White space is space, tab, line feed and
  carriage return. The parser is given fuel, two units for every character of the text
  and one more, which is enough (\<open>JSON_parse_enough_fuel\<close> below).
\<close>

datatype json =
    JNull
  | JBool bool
  | JNumber string
  | JString string
  | JArray "json list"
  | JObject "(string \<times> json) list"

datatype js_error = SyntaxError

datatype 'a parse = Parsed 'a string | Reject | OutOfFuel

definition json_ws :: "char \<Rightarrow> bool" where
  "json_ws c = (c \<in> set [CHR '' '', CHR 0x09, CHR 0x0A, CHR 0x0D])"

definition skip_ws :: "string \<Rightarrow> string" where
  "skip_ws s = dropWhile json_ws s"

definition is_digit :: "char \<Rightarrow> bool" where
  "is_digit c = (c \<in> set ''0123456789'')"

definition is_hex :: "char \<Rightarrow> bool" where
  "is_hex c = (c \<in> set ''0123456789abcdefABCDEF'')"

text \<open>
  The characters of a string after the opening quote, up to the closing quote: an escape
  is a backslash and one of the eight characters, or \<^verbatim>\<open>u\<close> and four hexadecimal
  digits; a control character is not allowed.
\<close>

fun string_body :: "string \<Rightarrow> string \<Rightarrow> (string \<times> string) option" where
  "string_body acc [] = None"
| "string_body acc (c # cs) =
     (if c = CHR 0x22 then Some (rev acc, cs)
      else if c = CHR 0x5C then
        (case cs of
           [] \<Rightarrow> None
         | e # cs' \<Rightarrow>
             if e \<in> set [CHR 0x22, CHR 0x5C, CHR ''/'', CHR ''b'', CHR ''f'', CHR ''n'', CHR ''r'', CHR ''t'']
               then string_body (e # c # acc) cs'
             else if e = CHR ''u'' then
               (case cs' of
                  h1 # h2 # h3 # h4 # cs'' \<Rightarrow>
                    if is_hex h1 \<and> is_hex h2 \<and> is_hex h3 \<and> is_hex h4
                      then string_body (h4 # h3 # h2 # h1 # e # c # acc) cs''
                    else None
                | _ \<Rightarrow> None)
             else None)
      else if (of_char c :: nat) < 0x20 then None
      else string_body (c # acc) cs)"

text \<open>
  A number: an optional minus, an integer part without a leading zero, an optional
  fraction and an optional exponent.
\<close>

definition digits1 :: "string \<Rightarrow> (string \<times> string) option" where
  "digits1 s = (if takeWhile is_digit s = [] then None
                else Some (takeWhile is_digit s, dropWhile is_digit s))"

definition number_int :: "string \<Rightarrow> (string \<times> string) option" where
  "number_int s =
     (case s of
        [] \<Rightarrow> None
      | c # cs \<Rightarrow> if c = CHR ''0'' then Some ([c], cs) else digits1 s)"

definition number_frac :: "string \<Rightarrow> (string \<times> string) option" where
  "number_frac s =
     (case s of
        c # cs \<Rightarrow>
          if c = CHR ''.'' then
            (case digits1 cs of None \<Rightarrow> None | Some (ds, r) \<Rightarrow> Some (c # ds, r))
          else Some ([], s)
      | [] \<Rightarrow> Some ([], s))"

definition number_exp :: "string \<Rightarrow> (string \<times> string) option" where
  "number_exp s =
     (case s of
        c # cs \<Rightarrow>
          if c = CHR ''e'' \<or> c = CHR ''E'' then
            (case cs of
               g # cs' \<Rightarrow>
                 if g = CHR ''+'' \<or> g = CHR ''-'' then
                   (case digits1 cs' of None \<Rightarrow> None | Some (ds, r) \<Rightarrow> Some (c # g # ds, r))
                 else (case digits1 cs of None \<Rightarrow> None | Some (ds, r) \<Rightarrow> Some (c # ds, r))
             | [] \<Rightarrow> None)
          else Some ([], s)
      | [] \<Rightarrow> Some ([], s))"

definition number :: "string \<Rightarrow> (string \<times> string) option" where
  "number s =
     (let (sign, s1) = (case s of c # cs \<Rightarrow> if c = CHR ''-'' then ([c], cs) else ([], s) | [] \<Rightarrow> ([], s))
      in case number_int s1 of
           None \<Rightarrow> None
         | Some (i, s2) \<Rightarrow>
             (case number_frac s2 of
                None \<Rightarrow> None
              | Some (f, s3) \<Rightarrow>
                  (case number_exp s3 of
                     None \<Rightarrow> None
                   | Some (e, s4) \<Rightarrow> Some (sign @ i @ f @ e, s4))))"

definition literal :: "string \<Rightarrow> string \<Rightarrow> string option" where
  "literal w s = (if take (length w) s = w then Some (drop (length w) s) else None)"

fun parse_value :: "nat \<Rightarrow> string \<Rightarrow> json parse"
  and parse_elements :: "nat \<Rightarrow> json list \<Rightarrow> string \<Rightarrow> json parse"
  and parse_members :: "nat \<Rightarrow> (string \<times> json) list \<Rightarrow> string \<Rightarrow> json parse" where
  "parse_value 0 s = OutOfFuel"
| "parse_value (Suc n) s =
     (case s of
        [] \<Rightarrow> Reject
      | c # cs \<Rightarrow>
          if c = CHR ''['' then
            (case skip_ws cs of
               [] \<Rightarrow> Reject
             | d # r \<Rightarrow> if d = CHR '']'' then Parsed (JArray []) r else parse_elements n [] (d # r))
          else if c = CHR ''{'' then
            (case skip_ws cs of
               [] \<Rightarrow> Reject
             | d # r \<Rightarrow> if d = CHR ''}'' then Parsed (JObject []) r else parse_members n [] (d # r))
          else if c = CHR 0x22 then
            (case string_body [] cs of None \<Rightarrow> Reject | Some (str, r) \<Rightarrow> Parsed (JString str) r)
          else if c = CHR ''n'' then
            (case literal ''null'' s of None \<Rightarrow> Reject | Some r \<Rightarrow> Parsed JNull r)
          else if c = CHR ''t'' then
            (case literal ''true'' s of None \<Rightarrow> Reject | Some r \<Rightarrow> Parsed (JBool True) r)
          else if c = CHR ''f'' then
            (case literal ''false'' s of None \<Rightarrow> Reject | Some r \<Rightarrow> Parsed (JBool False) r)
          else
            (case number s of None \<Rightarrow> Reject | Some (num, r) \<Rightarrow> Parsed (JNumber num) r))"
| "parse_elements 0 acc s = OutOfFuel"
| "parse_elements (Suc n) acc s =
     (case parse_value n s of
        Parsed v r \<Rightarrow>
          (case skip_ws r of
             [] \<Rightarrow> Reject
           | d # r' \<Rightarrow>
               if d = CHR '','' then parse_elements n (v # acc) (skip_ws r')
               else if d = CHR '']'' then Parsed (JArray (rev (v # acc))) r'
               else Reject)
      | Reject \<Rightarrow> Reject
      | OutOfFuel \<Rightarrow> OutOfFuel)"
| "parse_members 0 acc s = OutOfFuel"
| "parse_members (Suc n) acc s =
     (case s of
        [] \<Rightarrow> Reject
      | q # cs \<Rightarrow>
          if q \<noteq> CHR 0x22 then Reject
          else
            (case string_body [] cs of
               None \<Rightarrow> Reject
             | Some (key, r) \<Rightarrow>
                 (case skip_ws r of
                    [] \<Rightarrow> Reject
                  | d # r' \<Rightarrow>
                      if d \<noteq> CHR '':'' then Reject
                      else
                        (case parse_value n (skip_ws r') of
                           Parsed v r'' \<Rightarrow>
                             (case skip_ws r'' of
                                [] \<Rightarrow> Reject
                              | e # r3 \<Rightarrow>
                                  if e = CHR '','' then parse_members n ((key, v) # acc) (skip_ws r3)
                                  else if e = CHR ''}'' then Parsed (JObject (rev ((key, v) # acc))) r3
                                  else Reject)
                         | Reject \<Rightarrow> Reject
                         | OutOfFuel \<Rightarrow> OutOfFuel))))"

definition JSON_parse :: "string \<Rightarrow> js_error + json" where
  "JSON_parse src =
     (case parse_value (2 * length src + 1) (skip_ws src) of
        Parsed v r \<Rightarrow> if skip_ws r = [] then Inr v else Inl SyntaxError
      | Reject \<Rightarrow> Inl SyntaxError
      | OutOfFuel \<Rightarrow> Inl SyntaxError)"

section \<open>The store's operations\<close>

text \<open>
  \<^verbatim>\<open>loadFromStorage\<close>: \<open>stored\<close> is what \<^verbatim>\<open>localStorage.getItem\<close> returned,
  \<^verbatim>\<open>null\<close> or a string. The condition \<^verbatim>\<open>stored ? ... : []\<close> takes \<^verbatim>\<open>null\<close> and
  the empty string to the empty array. A \<^verbatim>\<open>SyntaxError\<close> raised by \<^verbatim>\<open>JSON.parse\<close>
  is not caught, so it is the result.
\<close>

definition loadFromStorage :: "string option \<Rightarrow> js_error + json" where
  "loadFromStorage stored =
     (case stored of
        None \<Rightarrow> Inr (JArray [])
      | Some src \<Rightarrow> if src = [] then Inr (JArray []) else JSON_parse src)"

definition saveToStorage :: "store \<Rightarrow> store" where
  "saveToStorage s = s\<lparr>effects := effects s @ [SetItem (fulfillments s)]\<rparr>"

definition notify :: "store \<Rightarrow> store" where
  "notify s = s\<lparr>effects := effects s @ [Notify (fulfillments s)]\<rparr>"

text \<open>
  \<^verbatim>\<open>hashPassword\<close>: the digest of the platform
  (\<^verbatim>\<open>crypto.subtle.digest('SHA-256', ...)\<close> of the encoded text) is the parameter
  \<open>digest\<close>, a function from the text to the bytes of the digest; the source then
  writes every byte as two lower-case hexadecimal digits and joins them.
\<close>

definition hex_digit :: "nat \<Rightarrow> char" where
  "hex_digit d = ''0123456789abcdef'' ! d"

definition hex2 :: "8 word \<Rightarrow> string" where
  "hex2 b = [hex_digit (unat b div 16), hex_digit (unat b mod 16)]"

definition hashPassword :: "(string \<Rightarrow> 8 word list) \<Rightarrow> string \<Rightarrow> string" where
  "hashPassword digest password = concat (map hex2 (digest password))"

text \<open>
  \<^verbatim>\<open>generatePassword\<close>: \<open>r\<close> is the value of \<^verbatim>\<open>Math.random()\<close>, taken as a real
  number (the rounding of the floating-point product and sum is not modelled).
\<close>

definition generatePassword :: "real \<Rightarrow> string" where
  "generatePassword r = toString \<lfloor>100000 + r * 900000\<rfloor>"

text \<open>
  \<^verbatim>\<open>generateId\<close>: \<open>t36\<close> is \<^verbatim>\<open>Date.now().toString(36)\<close> and \<open>r36\<close> is
  \<^verbatim>\<open>Math.random().toString(36)\<close>.
\<close>

definition generateId :: "string \<Rightarrow> string \<Rightarrow> string" where
  "generateId t36 r36 = ''FUL-'' @ toUpperCase t36 @ ''-'' @ toUpperCase (substr 2 5 r36)"

text \<open>
  \<^verbatim>\<open>createFulfillment\<close>. The readings of the environment are arguments, in the order
  the source takes them: \<open>r\<close> for the password, \<open>t36\<close> and \<open>r36\<close> for the id,
  \<open>now1\<close> and \<open>now2\<close> for the two \<^verbatim>\<open>new Date().toISOString()\<close>. The operation is
  taken as one step: what another task might do while the hash is awaited is not
  modelled.
\<close>

definition createFulfillment ::
  "(string \<Rightarrow> 8 word list) \<Rightarrow> real \<Rightarrow> string \<Rightarrow> string \<Rightarrow> string \<Rightarrow> string \<Rightarrow>
     data \<Rightarrow> store \<Rightarrow> (fulfillment \<times> string) \<times> store" where
  "createFulfillment digest r t36 r36 now1 now2 d s =
     (let password = generatePassword r;
          passwordHash = hashPassword digest password;
          fulfillment = \<lparr>
            itemName = itemName d,
            personA = personA d,
            personB = personB d,
            personC = personC d,
            id_f = generateId t36 r36,
            status = ''pending'',
            qrCodeUsed = False,
            passwordHash = passwordHash,
            passwordUsed = False,
            createdAt = now1,
            timeline = [
              \<lparr>stage = ''created'',
               title = ''Fulfillment Created'',
               description = personA d @ '' initiated the transfer'',
               timestamp = Some now2,
               completed = True\<rparr>,
              \<lparr>stage = ''dropped-off'',
               title = ''Item Dropped Off'',
               description = personA d @ '' drops off with '' @ personB d,
               timestamp = None,
               completed = False\<rparr>,
              \<lparr>stage = ''collected'',
               title = ''Item Collected'',
               description = personC d @ '' collects from '' @ personB d,
               timestamp = None,
               completed = False\<rparr>]\<rparr>
      in ((fulfillment, password),
          notify (saveToStorage (s\<lparr>fulfillments := fulfillment # fulfillments s\<rparr>))))"

text \<open>
  The block that three operations share: find the first timeline entry of a stage and,
  when there is one, set its \<^verbatim>\<open>completed\<close> and \<^verbatim>\<open>timestamp\<close>.
\<close>

definition markStage :: "string \<Rightarrow> string \<Rightarrow> timeline_entry list \<Rightarrow> timeline_entry list" where
  "markStage st now entries =
     update_first (\<lambda>t. stage t = st) (\<lambda>t. t\<lparr>completed := True, timestamp := Some now\<rparr>) entries"

definition failure :: "string \<Rightarrow> result" where
  "failure m = \<lparr>success = False, message = m, fulfillment_opt = None\<rparr>"

definition updateStatusViaQR :: "string \<Rightarrow> string \<Rightarrow> store \<Rightarrow> result \<times> store" where
  "updateStatusViaQR now i s =
     (case find (\<lambda>f. id_f f = i) (fulfillments s) of
        None \<Rightarrow> (failure ''Fulfillment not found'', s)
      | Some f \<Rightarrow>
          if qrCodeUsed f then (failure ''QR code has already been used'', s)
          else if status f \<noteq> ''pending'' then (failure ''Fulfillment is not in pending status'', s)
          else
            let g = (\<lambda>f. f\<lparr>status := ''in-transit'', qrCodeUsed := True,
                           timeline := markStage ''dropped-off'' now (timeline f)\<rparr>);
                s' = s\<lparr>fulfillments := update_first (\<lambda>f. id_f f = i) g (fulfillments s)\<rparr>
            in (\<lparr>success = True, message = ''Item receipt confirmed!'',
                 fulfillment_opt = Some (g f)\<rparr>,
                notify (saveToStorage s')))"

text \<open>
  \<^verbatim>\<open>validateAndCollect\<close>, taken as one step as well: the checks and the update are
  not interleaved with other operations while the hash is awaited.
\<close>

definition validateAndCollect ::
  "(string \<Rightarrow> 8 word list) \<Rightarrow> string \<Rightarrow> string \<Rightarrow> string \<Rightarrow> store \<Rightarrow> result \<times> store" where
  "validateAndCollect digest now i password s =
     (case find (\<lambda>f. id_f f = i) (fulfillments s) of
        None \<Rightarrow> (failure ''Fulfillment not found'', s)
      | Some f \<Rightarrow>
          if passwordUsed f then (failure ''Password has already been used'', s)
          else if status f \<noteq> ''in-transit'' then (failure ''Item has not been dropped off yet'', s)
          else if hashPassword digest password \<noteq> passwordHash f
            then (failure ''Incorrect password'', s)
          else
            let g = (\<lambda>f. f\<lparr>status := ''completed'', passwordUsed := True,
                           timeline := markStage ''collected'' now (timeline f)\<rparr>);
                s' = s\<lparr>fulfillments := update_first (\<lambda>f. id_f f = i) g (fulfillments s)\<rparr>
            in (\<lparr>success = True, message = ''Item collected successfully!'',
                 fulfillment_opt = Some (g f)\<rparr>,
                notify (saveToStorage s')))"

text \<open>
  \<^verbatim>\<open>updateStatus\<close> returns \<^verbatim>\<open>undefined\<close> on every path: the result component is
  \<open>None\<close>.
\<close>

definition updateStatus :: "string \<Rightarrow> string \<Rightarrow> string \<Rightarrow> store \<Rightarrow> result option \<times> store" where
  "updateStatus now i newStatus s =
     (case find (\<lambda>f. id_f f = i) (fulfillments s) of
        None \<Rightarrow> (None, s)
      | Some f \<Rightarrow>
          let g = (\<lambda>f. f\<lparr>status := newStatus,
                         timeline :=
                           (if newStatus = ''in-transit'' then markStage ''dropped-off'' now (timeline f)
                            else if newStatus = ''completed'' then markStage ''collected'' now (timeline f)
                            else timeline f)\<rparr>);
              s' = s\<lparr>fulfillments := update_first (\<lambda>f. id_f f = i) g (fulfillments s)\<rparr>
          in (None, notify (saveToStorage s')))"

definition deleteFulfillment :: "string \<Rightarrow> store \<Rightarrow> store" where
  "deleteFulfillment i s =
     notify (saveToStorage (s\<lparr>fulfillments := filter (\<lambda>f. id_f f \<noteq> i) (fulfillments s)\<rparr>))"

definition getFulfillment :: "string \<Rightarrow> store \<Rightarrow> fulfillment option" where
  "getFulfillment i s = find (\<lambda>f. id_f f = i) (fulfillments s)"


section \<open>Sequences of operations\<close>

text \<open>
  A call of one of the five mutating operations, with the readings of the environment it
  makes (clock, random numbers) and its arguments.
\<close>

datatype op =
    CreateFulfillment real string string string string data
  | UpdateStatusViaQR string string
  | ValidateAndCollect string string string
  | UpdateStatus string string string
  | DeleteFulfillment string

fun apply_op :: "(string \<Rightarrow> 8 word list) \<Rightarrow> op \<Rightarrow> store \<Rightarrow> store" where
  "apply_op digest (CreateFulfillment r t36 r36 now1 now2 d) s =
     snd (createFulfillment digest r t36 r36 now1 now2 d s)"
| "apply_op digest (UpdateStatusViaQR now i) s = snd (updateStatusViaQR now i s)"
| "apply_op digest (ValidateAndCollect now i password) s =
     snd (validateAndCollect digest now i password s)"
| "apply_op digest (UpdateStatus now i newStatus) s = snd (updateStatus now i newStatus s)"
| "apply_op digest (DeleteFulfillment i) s = deleteFulfillment i s"

fun run :: "(string \<Rightarrow> 8 word list) \<Rightarrow> op list \<Rightarrow> store \<Rightarrow> store" where
  "run digest [] s = s"
| "run digest (x # xs) s = run digest xs (apply_op digest x s)"

text \<open>The store of a session that found nothing in the local storage.\<close>

definition empty_store :: store where
  "empty_store = \<lparr>fulfillments = [], effects = []\<rparr>"

text \<open>
  The consistency of the status with the two flags that the data model asks for, of one
  record and of all records of a store.
\<close>

definition consistent :: "fulfillment \<Rightarrow> bool" where
  "consistent f =
     ((qrCodeUsed f \<longrightarrow> status f = ''in-transit'' \<or> status f = ''completed'') \<and>
      (passwordUsed f \<longrightarrow> status f = ''completed''))"

definition store_consistent :: "store \<Rightarrow> bool" where
  "store_consistent s = list_all consistent (fulfillments s)"

text \<open>
  The two calls of \<^verbatim>\<open>updateStatus\<close> in the source are in \<^verbatim>\<open>handleAction\<close>: with
  \<^verbatim>\<open>'in-transit'\<close> behind a button that is rendered for a record whose status is
  \<^verbatim>\<open>'pending'\<close>, and with \<^verbatim>\<open>'completed'\<close> behind a button that is rendered for a
  record whose status is \<^verbatim>\<open>'in-transit'\<close>. \<open>as_issued\<close> says that a call of
  \<^verbatim>\<open>updateStatus\<close> is one of these two; the other operations are not restricted.
\<close>

fun as_issued :: "op \<Rightarrow> store \<Rightarrow> bool" where
  "as_issued (UpdateStatus now i newStatus) s =
     (case find (\<lambda>f. id_f f = i) (fulfillments s) of
        None \<Rightarrow> True
      | Some f \<Rightarrow> (newStatus = ''in-transit'' \<and> status f = ''pending'') \<or>
                  (newStatus = ''completed'' \<and> status f = ''in-transit''))"
| "as_issued _ s = True"

fun all_as_issued :: "(string \<Rightarrow> 8 word list) \<Rightarrow> op list \<Rightarrow> store \<Rightarrow> bool" where
  "all_as_issued digest [] s = True"
| "all_as_issued digest (x # xs) s =
     (as_issued x s \<and> all_as_issued digest xs (apply_op digest x s))"

text \<open>
  For the calls that follow a drop-off: \<open>token_used i s\<close> says that the record
  that \<^verbatim>\<open>find\<close> returns for the id \<open>i\<close> has \<^verbatim>\<open>qrCodeUsed\<close> true, and
  \<open>keeps i\<close> holds of every operation but the two that can take that record away
  from the id: its deletion, and the creation of a record that is given the same id.
\<close>

fun keeps :: "string \<Rightarrow> op \<Rightarrow> bool" where
  "keeps i (DeleteFulfillment j) = (j \<noteq> i)"
| "keeps i (CreateFulfillment r t36 r36 now1 now2 d) = (generateId t36 r36 \<noteq> i)"
| "keeps i _ = True"

definition token_used :: "string \<Rightarrow> store \<Rightarrow> bool" where
  "token_used i s =
     (case find (\<lambda>f. id_f f = i) (fulfillments s) of None \<Rightarrow> False | Some f \<Rightarrow> qrCodeUsed f)"

text \<open>
  The timeline stage that \<^verbatim>\<open>updateStatus\<close> marks for a new status: the two
  branches of its conditional, and no stage for any other status.
\<close>

definition corresponding_stage :: "string \<Rightarrow> string option" where
  "corresponding_stage newStatus =
     (if newStatus = ''in-transit'' then Some ''dropped-off''
      else if newStatus = ''completed'' then Some ''collected''
      else None)"

section \<open>Sample values\<close>

text \<open>
  Concrete values for the examples below. \<open>sample_digest\<close> stands for the digest of
  the platform there: 32 bytes, the bytes of the text padded with the character 0.
\<close>

definition sample_digest :: "string \<Rightarrow> 8 word list" where
  "sample_digest s =
     map (\<lambda>c. of_nat (of_char c)) (take 32 (s @ ''00000000000000000000000000000000''))"

definition sample_data :: data where
  "sample_data =
     \<lparr>itemName = ''Laptop'', personA = ''Alice'', personB = ''Bob'', personC = ''Carol''\<rparr>"

definition sample_create :: op where
  "sample_create = CreateFulfillment (1 / 2) ''lx2k9a'' ''0.4fzyo82mvyr''
     ''2024-05-01T10:00:00.000Z'' ''2024-05-01T10:00:00.001Z'' sample_data"

definition sample_store :: store where
  "sample_store = apply_op sample_digest sample_create empty_store"

definition sample_fulfillment :: fulfillment where
  "sample_fulfillment = hd (fulfillments sample_store)"

definition sample_in_transit :: store where
  "sample_in_transit =
     apply_op sample_digest (UpdateStatusViaQR ''2024-05-01T11:00:00.000Z'' ''FUL-LX2K9A-4FZYO'')
       sample_store"

section \<open>Lemmas on the helpers\<close>

lemmas sample_defs = sample_in_transit_def sample_fulfillment_def sample_store_def
  sample_create_def sample_data_def empty_store_def

lemmas op_defs = createFulfillment_def updateStatusViaQR_def validateAndCollect_def
  updateStatus_def deleteFulfillment_def notify_def saveToStorage_def markStage_def failure_def
  Let_def

lemmas str_defs = generatePassword_def generateId_def toString_def toString_nat.simps digit_def
  toUpperCase_def upper_char_def substr_def hashPassword_def hex2_def hex_digit_def
  sample_digest_def

lemma update_first_no_match: "find P xs = None \<Longrightarrow> update_first P g xs = xs"
  by (induction xs) (auto split: if_splits)

lemma find_update_first:
  "find P xs = Some x \<Longrightarrow> P (g x) \<Longrightarrow> find P (update_first P g xs) = Some (g x)"
  by (induction xs) (auto split: if_splits)

lemma list_all_update_first:
  "list_all Q xs \<Longrightarrow> find P xs = Some x \<Longrightarrow> Q (g x) \<Longrightarrow> list_all Q (update_first P g xs)"
  by (induction xs) (auto split: if_splits)

lemma length_update_first: "length (update_first P g xs) = length xs"
  by (induction xs) auto

lemma find_markStage:
  "find (\<lambda>t. stage t = st) entries = Some t \<Longrightarrow>
   find (\<lambda>t. stage t = st) (markStage st now entries) =
     Some (t\<lparr>completed := True, timestamp := Some now\<rparr>)"
  unfolding markStage_def by (rule find_update_first) (auto dest: find_Some_iff[THEN iffD1])

lemma fulfillments_notify_save [simp]:
  "fulfillments (notify (saveToStorage s)) = fulfillments s"
  by (simp add: notify_def saveToStorage_def)

lemma sample_store_value:
  "sample_store =
     \<lparr>fulfillments = [sample_fulfillment],
      effects = [SetItem [sample_fulfillment], Notify [sample_fulfillment]]\<rparr>"
  by (simp add: sample_defs op_defs)

lemma sample_fulfillment_fields:
  "id_f sample_fulfillment = ''FUL-LX2K9A-4FZYO''"
  "status sample_fulfillment = ''pending''"
  "qrCodeUsed sample_fulfillment = False"
  "passwordUsed sample_fulfillment = False"
  by (simp_all add: sample_defs op_defs str_defs)

section \<open>The consistency of status and flags\<close>

lemma consistent_create:
  "store_consistent s \<Longrightarrow>
   store_consistent (snd (createFulfillment digest r t36 r36 now1 now2 d s))"
  by (simp add: createFulfillment_def Let_def store_consistent_def consistent_def)

lemma consistent_viaQR:
  assumes "store_consistent s"
  shows "store_consistent (snd (updateStatusViaQR now i s))"
proof (cases "find (\<lambda>f. id_f f = i) (fulfillments s)")
  case None
  with assms show ?thesis by (simp add: updateStatusViaQR_def)
next
  case (Some f)
  let ?g = "\<lambda>f. f\<lparr>status := ''in-transit'', qrCodeUsed := True,
                   timeline := markStage ''dropped-off'' now (timeline f)\<rparr>"
  have "consistent f"
    using assms Some by (auto simp: store_consistent_def list_all_iff find_Some_iff)
  then have "status f = ''pending'' \<Longrightarrow> consistent (?g f)"
    by (simp add: consistent_def)
  then show ?thesis
    using assms Some
    by (simp add: updateStatusViaQR_def Let_def store_consistent_def list_all_update_first)
qed

lemma consistent_collect:
  assumes "store_consistent s"
  shows "store_consistent (snd (validateAndCollect digest now i password s))"
proof (cases "find (\<lambda>f. id_f f = i) (fulfillments s)")
  case None
  with assms show ?thesis by (simp add: validateAndCollect_def)
next
  case (Some f)
  let ?g = "\<lambda>f. f\<lparr>status := ''completed'', passwordUsed := True,
                   timeline := markStage ''collected'' now (timeline f)\<rparr>"
  have "consistent (?g f)"
    by (simp add: consistent_def)
  then show ?thesis
    using assms Some
    by (simp add: validateAndCollect_def Let_def store_consistent_def list_all_update_first)
qed

lemma consistent_delete:
  "store_consistent s \<Longrightarrow> store_consistent (deleteFulfillment i s)"
  by (simp add: deleteFulfillment_def store_consistent_def list_all_iff)

lemma consistent_updateStatus:
  assumes "store_consistent s" and "as_issued (UpdateStatus now i newStatus) s"
  shows "store_consistent (snd (updateStatus now i newStatus s))"
proof (cases "find (\<lambda>f. id_f f = i) (fulfillments s)")
  case None
  with assms show ?thesis by (simp add: updateStatus_def)
next
  case (Some f)
  let ?g = "\<lambda>f. f\<lparr>status := newStatus,
                   timeline :=
                     (if newStatus = ''in-transit'' then markStage ''dropped-off'' now (timeline f)
                      else if newStatus = ''completed'' then markStage ''collected'' now (timeline f)
                      else timeline f)\<rparr>"
  have "consistent f"
    using assms Some by (auto simp: store_consistent_def list_all_iff find_Some_iff)
  moreover have "(newStatus = ''in-transit'' \<and> status f = ''pending'') \<or>
                 (newStatus = ''completed'' \<and> status f = ''in-transit'')"
    using assms(2) Some by simp
  ultimately have "consistent (?g f)"
    by (auto simp: consistent_def)
  then show ?thesis
    using assms Some
    by (simp add: updateStatus_def Let_def store_consistent_def list_all_update_first)
qed

lemma consistent_apply_op:
  "store_consistent s \<Longrightarrow> as_issued x s \<Longrightarrow> store_consistent (apply_op digest x s)"
  by (cases x)
    (simp_all add: consistent_create consistent_viaQR consistent_collect consistent_updateStatus
      consistent_delete)

text \<open>
  Claim C1, as the code has it. The claim lets \<^verbatim>\<open>updateStatus\<close> be called with any
  arguments; \<^verbatim>\<open>updateStatus\<close> writes the status it is given and leaves the flags, so
  a record that was collected (\<^verbatim>\<open>passwordUsed\<close> true) and is then given the status
  \<^verbatim>\<open>'in-transit'\<close> breaks the consistency (the example after the theorem).
  What holds: starting from a consistent store (the empty one is), every sequence of
  \<^verbatim>\<open>createFulfillment\<close>, \<^verbatim>\<open>updateStatusViaQR\<close>, \<^verbatim>\<open>validateAndCollect\<close>,
  \<^verbatim>\<open>deleteFulfillment\<close> and of those calls of \<^verbatim>\<open>updateStatus\<close> that the source
  issues (to \<^verbatim>\<open>'in-transit'\<close> on a pending record, to \<^verbatim>\<open>'completed'\<close> on a record in
  transit) leads to a store in which every record with \<^verbatim>\<open>qrCodeUsed\<close> has status
  \<^verbatim>\<open>'in-transit'\<close> or \<^verbatim>\<open>'completed'\<close> and every record with \<^verbatim>\<open>passwordUsed\<close> has
  status \<^verbatim>\<open>'completed'\<close>.
\<close>

theorem consistency_preserved:
  "store_consistent s \<Longrightarrow> all_as_issued digest ops s \<Longrightarrow> store_consistent (run digest ops s)"
  by (induction ops arbitrary: s) (simp_all add: consistent_apply_op)

theorem consistency_preserved_witness:
  "store_consistent empty_store \<and>
   all_as_issued sample_digest
       [sample_create,
        UpdateStatus ''2024-05-01T11:00:00.000Z'' ''FUL-LX2K9A-4FZYO'' ''in-transit'',
        ValidateAndCollect ''2024-05-01T12:00:00.000Z'' ''FUL-LX2K9A-4FZYO'' ''550000'',
        DeleteFulfillment ''FUL-LX2K9A-4FZYO'']
       empty_store \<and>
   store_consistent (run sample_digest
       [sample_create,
        UpdateStatus ''2024-05-01T11:00:00.000Z'' ''FUL-LX2K9A-4FZYO'' ''in-transit'',
        ValidateAndCollect ''2024-05-01T12:00:00.000Z'' ''FUL-LX2K9A-4FZYO'' ''550000'',
        DeleteFulfillment ''FUL-LX2K9A-4FZYO'']
       empty_store)"
proof -
  have a: "store_consistent empty_store"
    by (simp add: empty_store_def store_consistent_def)
  have b: "all_as_issued sample_digest
       [sample_create,
        UpdateStatus ''2024-05-01T11:00:00.000Z'' ''FUL-LX2K9A-4FZYO'' ''in-transit'',
        ValidateAndCollect ''2024-05-01T12:00:00.000Z'' ''FUL-LX2K9A-4FZYO'' ''550000'',
        DeleteFulfillment ''FUL-LX2K9A-4FZYO'']
       empty_store"
    by (simp add: sample_defs op_defs str_defs)
  from a b consistency_preserved [OF a b] show ?thesis by simp
qed

text \<open>
  The claim as stated fails: create a record, confirm the drop-off, collect it with the
  right password, then call \<^verbatim>\<open>updateStatus\<close> with \<^verbatim>\<open>'in-transit'\<close>. The record has
  \<^verbatim>\<open>passwordUsed\<close> true and status \<^verbatim>\<open>'in-transit'\<close>.
\<close>

theorem consistency_counterexample:
  "\<not> store_consistent (run sample_digest
       [sample_create,
        UpdateStatusViaQR ''2024-05-01T11:00:00.000Z'' ''FUL-LX2K9A-4FZYO'',
        ValidateAndCollect ''2024-05-01T12:00:00.000Z'' ''FUL-LX2K9A-4FZYO'' ''550000'',
        UpdateStatus ''2024-05-01T13:00:00.000Z'' ''FUL-LX2K9A-4FZYO'' ''in-transit'']
       empty_store)"
  by (simp add: sample_defs op_defs str_defs store_consistent_def consistent_def)

section \<open>The drop-off checkpoint\<close>

lemma find_update_first_same:
  assumes "\<And>x. Q (g x) = Q x"
  shows "find Q (update_first Q g xs) = map_option g (find Q xs)"
  using assms by (induction xs) auto

lemma find_update_first_other:
  assumes "\<And>x. Q (g x) = Q x" and "\<And>x. P x \<Longrightarrow> \<not> Q x"
  shows "find Q (update_first P g xs) = find Q xs"
  using assms by (induction xs) auto

lemma find_filter_keep:
  assumes "\<And>x. Q x \<Longrightarrow> R x"
  shows "find Q (filter R xs) = find Q xs"
  using assms by (induction xs) auto

lemma find_by_id_update:
  assumes "\<And>x. id_f (g x) = id_f x"
  shows "find (\<lambda>f. id_f f = i) (update_first (\<lambda>f. id_f f = j) g xs) =
           (if j = i then map_option g (find (\<lambda>f. id_f f = i) xs)
            else find (\<lambda>f. id_f f = i) xs)"
proof (cases "j = i")
  case True
  then show ?thesis using find_update_first_same[of "\<lambda>f. id_f f = i" g xs] assms by simp
next
  case False
  then show ?thesis
    using find_update_first_other[of "\<lambda>f. id_f f = i" g "\<lambda>f. id_f f = j" xs] assms by simp
qed

lemma token_used_viaQR: "token_used i s \<Longrightarrow> token_used i (snd (updateStatusViaQR now j s))"
  by (cases "find (\<lambda>f. id_f f = j) (fulfillments s)")
    (auto simp: token_used_def updateStatusViaQR_def Let_def find_by_id_update
      split: option.splits)

lemma token_used_collect:
  "token_used i s \<Longrightarrow> token_used i (snd (validateAndCollect digest now j password s))"
  by (cases "find (\<lambda>f. id_f f = j) (fulfillments s)")
    (auto simp: token_used_def validateAndCollect_def Let_def find_by_id_update
      split: option.splits)

lemma token_used_updateStatus:
  "token_used i s \<Longrightarrow> token_used i (snd (updateStatus now j newStatus s))"
  by (cases "find (\<lambda>f. id_f f = j) (fulfillments s)")
    (auto simp: token_used_def updateStatus_def Let_def find_by_id_update
      split: option.splits)

lemma token_used_delete:
  "token_used i s \<Longrightarrow> j \<noteq> i \<Longrightarrow> token_used i (deleteFulfillment j s)"
  using find_filter_keep[of "\<lambda>f. id_f f = i" "\<lambda>f. id_f f \<noteq> j" "fulfillments s"]
  by (simp add: token_used_def deleteFulfillment_def)

lemma token_used_create:
  "token_used i s \<Longrightarrow> generateId t36 r36 \<noteq> i \<Longrightarrow>
   token_used i (snd (createFulfillment digest r t36 r36 now1 now2 d s))"
  by (simp add: token_used_def createFulfillment_def Let_def)

lemma token_used_apply_op:
  "token_used i s \<Longrightarrow> keeps i x \<Longrightarrow> token_used i (apply_op digest x s)"
  by (cases x)
    (simp_all add: token_used_create token_used_viaQR token_used_collect token_used_updateStatus
      token_used_delete)

lemma token_used_run:
  "token_used i s \<Longrightarrow> list_all (keeps i) ops \<Longrightarrow> token_used i (run digest ops s)"
  by (induction ops arbitrary: s) (simp_all add: token_used_apply_op)

lemma token_used_rejected:
  "token_used i s \<Longrightarrow> updateStatusViaQR now i s = (failure ''QR code has already been used'', s)"
  by (auto simp: token_used_def updateStatusViaQR_def split: option.splits)

lemma find_by_id_distinct:
  "distinct (map id_f fs) \<Longrightarrow> f \<in> set fs \<Longrightarrow> find (\<lambda>g. id_f g = id_f f) fs = Some f"
  by (induction fs) (auto simp: image_iff)

text \<open>
  Claim C2. Let \<open>i\<close> be the id of a record \<open>f\<close> of the store, the one that
  \<^verbatim>\<open>find\<close> returns for \<open>i\<close> (with distinct ids, any record is the one found for
  its id: \<open>find_by_id_distinct\<close>), with status \<^verbatim>\<open>'pending'\<close> and
  \<^verbatim>\<open>qrCodeUsed\<close> false. Then \<^verbatim>\<open>updateStatusViaQR\<close> succeeds: the record
  returned, which is the record of that id in the new store, has status
  \<^verbatim>\<open>'in-transit'\<close> and \<^verbatim>\<open>qrCodeUsed\<close> true; its \<^verbatim>\<open>'dropped-off'\<close> timeline
  entry is the old one, completed and stamped with the current time (a string, so not
  null); the collection is saved and the listeners are notified. Every later call with
  the same id, at any time, fails with the message of a used QR code and changes
  nothing: the next one, and one after any operations in between that neither delete
  the record nor create a record of the same id.
\<close>

theorem confirmDropOff_once:
  assumes "find (\<lambda>f. id_f f = i) (fulfillments s) = Some f"
    and "status f = ''pending''" and "\<not> qrCodeUsed f"
  shows "case updateStatusViaQR now i s of (r, s') \<Rightarrow>
     success r \<and> message r = ''Item receipt confirmed!'' \<and>
     (\<exists>f'. fulfillment_opt r = Some f' \<and>
        find (\<lambda>f. id_f f = i) (fulfillments s') = Some f' \<and>
        status f' = ''in-transit'' \<and> qrCodeUsed f' \<and>
        (\<forall>t. find (\<lambda>t. stage t = ''dropped-off'') (timeline f) = Some t \<longrightarrow>
           find (\<lambda>t. stage t = ''dropped-off'') (timeline f') =
             Some (t\<lparr>completed := True, timestamp := Some now\<rparr>))) \<and>
     effects s' = effects s @ [SetItem (fulfillments s'), Notify (fulfillments s')] \<and>
     (\<forall>now'. updateStatusViaQR now' i s' = (failure ''QR code has already been used'', s')) \<and>
     (\<forall>ops now'. list_all (keeps i) ops \<longrightarrow>
        updateStatusViaQR now' i (run digest ops s') =
          (failure ''QR code has already been used'', run digest ops s'))"
proof -
  let ?g = "\<lambda>f. f\<lparr>status := ''in-transit'', qrCodeUsed := True,
                   timeline := markStage ''dropped-off'' now (timeline f)\<rparr>"
  let ?s' = "notify (saveToStorage
               (s\<lparr>fulfillments := update_first (\<lambda>f. id_f f = i) ?g (fulfillments s)\<rparr>))"
  have run: "updateStatusViaQR now i s =
      (\<lparr>success = True, message = ''Item receipt confirmed!'', fulfillment_opt = Some (?g f)\<rparr>,
       ?s')"
    using assms by (simp add: updateStatusViaQR_def Let_def)
  have idf: "id_f f = i"
    using assms(1) by (auto simp: find_Some_iff)
  have found: "find (\<lambda>f. id_f f = i) (fulfillments ?s') = Some (?g f)"
    using find_update_first[OF assms(1), of ?g] idf by simp
  have again: "updateStatusViaQR now' i ?s' = (failure ''QR code has already been used'', ?s')"
    for now'
    unfolding updateStatusViaQR_def found by simp
  have eff: "effects ?s' = effects s @ [SetItem (fulfillments ?s'), Notify (fulfillments ?s')]"
    by (simp add: notify_def saveToStorage_def)
  have "token_used i ?s'"
    unfolding token_used_def found by simp
  then have later: "updateStatusViaQR now' i (run digest ops ?s') =
      (failure ''QR code has already been used'', run digest ops ?s')"
    if "list_all (keeps i) ops" for ops now'
    using that by (intro token_used_rejected token_used_run)
  show ?thesis
    unfolding run using found again eff later by (simp add: find_markStage)
qed

theorem confirmDropOff_once_witness:
  "find (\<lambda>f. id_f f = ''FUL-LX2K9A-4FZYO'') (fulfillments sample_store) = Some sample_fulfillment \<and>
   status sample_fulfillment = ''pending'' \<and> \<not> qrCodeUsed sample_fulfillment \<and>
   success (fst (updateStatusViaQR ''2024-05-01T11:00:00.000Z'' ''FUL-LX2K9A-4FZYO'' sample_store)) \<and>
   fst (updateStatusViaQR ''2024-05-01T12:00:00.000Z'' ''FUL-LX2K9A-4FZYO''
          (snd (updateStatusViaQR ''2024-05-01T11:00:00.000Z'' ''FUL-LX2K9A-4FZYO'' sample_store))) =
     failure ''QR code has already been used''"
proof -
  have a: "find (\<lambda>f. id_f f = ''FUL-LX2K9A-4FZYO'') (fulfillments sample_store) =
             Some sample_fulfillment"
    by (simp add: sample_store_value sample_fulfillment_fields)
  have b: "status sample_fulfillment = ''pending''" and c: "\<not> qrCodeUsed sample_fulfillment"
    by (simp_all add: sample_fulfillment_fields)
  from a b c confirmDropOff_once [OF a b c, where now = "''2024-05-01T11:00:00.000Z''"
    and digest = sample_digest]
  show ?thesis by (auto split: prod.splits)
qed

section \<open>The collection checkpoint\<close>

text \<open>
  Claim C3. For the record that \<^verbatim>\<open>find\<close> returns for the id, with status
  \<^verbatim>\<open>'in-transit'\<close> and \<^verbatim>\<open>passwordUsed\<close> false, \<^verbatim>\<open>validateAndCollect\<close> with a
  password whose hash is not the stored one returns the failure of an incorrect password
  and the store it was given: no record, no flag, no timeline entry has changed, nothing
  was saved and nobody was notified.
\<close>

theorem wrong_secret_rejected:
  assumes "find (\<lambda>f. id_f f = i) (fulfillments s) = Some f"
    and "status f = ''in-transit''" and "\<not> passwordUsed f"
    and "hashPassword digest password \<noteq> passwordHash f"
  shows "validateAndCollect digest now i password s = (failure ''Incorrect password'', s)"
  using assms by (simp add: validateAndCollect_def)

theorem wrong_secret_rejected_witness:
  "find (\<lambda>f. id_f f = ''FUL-LX2K9A-4FZYO'') (fulfillments sample_in_transit) =
     Some (hd (fulfillments sample_in_transit)) \<and>
   status (hd (fulfillments sample_in_transit)) = ''in-transit'' \<and>
   \<not> passwordUsed (hd (fulfillments sample_in_transit)) \<and>
   hashPassword sample_digest ''000000'' \<noteq> passwordHash (hd (fulfillments sample_in_transit)) \<and>
   validateAndCollect sample_digest ''2024-05-01T12:00:00.000Z'' ''FUL-LX2K9A-4FZYO'' ''000000''
     sample_in_transit = (failure ''Incorrect password'', sample_in_transit)"
proof -
  have a: "find (\<lambda>f. id_f f = ''FUL-LX2K9A-4FZYO'') (fulfillments sample_in_transit) =
             Some (hd (fulfillments sample_in_transit))"
    by (simp add: sample_defs op_defs str_defs)
  have b: "status (hd (fulfillments sample_in_transit)) = ''in-transit''"
    and c: "\<not> passwordUsed (hd (fulfillments sample_in_transit))"
    by (simp_all add: sample_defs op_defs str_defs)
  have d: "hashPassword sample_digest ''000000'' \<noteq>
             passwordHash (hd (fulfillments sample_in_transit))"
    by (simp add: sample_defs op_defs str_defs)
  from a b c d wrong_secret_rejected [OF a b c d] show ?thesis by simp
qed

text \<open>
  Claim C4. For the record that \<^verbatim>\<open>find\<close> returns for the id, with status
  \<^verbatim>\<open>'pending'\<close> and \<^verbatim>\<open>passwordUsed\<close> false, \<^verbatim>\<open>validateAndCollect\<close> with any
  password returns the failure that the item has not been dropped off yet, and the store
  it was given; the record of that id is still \<open>f\<close>, with status \<^verbatim>\<open>'pending'\<close>.
\<close>

theorem collect_before_dropoff_rejected:
  assumes "find (\<lambda>f. id_f f = i) (fulfillments s) = Some f"
    and "status f = ''pending''" and "\<not> passwordUsed f"
  shows "case validateAndCollect digest now i password s of (r, s') \<Rightarrow>
           r = failure ''Item has not been dropped off yet'' \<and> s' = s \<and>
           find (\<lambda>f. id_f f = i) (fulfillments s') = Some f \<and> status f = ''pending''"
  using assms by (simp add: validateAndCollect_def)

theorem collect_before_dropoff_rejected_witness:
  "find (\<lambda>f. id_f f = ''FUL-LX2K9A-4FZYO'') (fulfillments sample_store) = Some sample_fulfillment \<and>
   status sample_fulfillment = ''pending'' \<and> \<not> passwordUsed sample_fulfillment \<and>
   validateAndCollect sample_digest ''2024-05-01T12:00:00.000Z'' ''FUL-LX2K9A-4FZYO'' ''550000''
     sample_store = (failure ''Item has not been dropped off yet'', sample_store)"
proof -
  have a: "find (\<lambda>f. id_f f = ''FUL-LX2K9A-4FZYO'') (fulfillments sample_store) =
             Some sample_fulfillment"
    by (simp add: sample_store_value sample_fulfillment_fields)
  have b: "status sample_fulfillment = ''pending''" and c: "\<not> passwordUsed sample_fulfillment"
    by (simp_all add: sample_fulfillment_fields)
  from a b c
    collect_before_dropoff_rejected [OF a b c, of sample_digest "''2024-05-01T12:00:00.000Z''"
      "''550000''"]
  show ?thesis by (auto split: prod.splits)
qed

section \<open>An id that matches no record\<close>

text \<open>
  Claim C10. When no record of the store has the id, \<^verbatim>\<open>updateStatus\<close> returns
  \<^verbatim>\<open>undefined\<close> and the store it was given: the collection is the same, and the log
  of effects is the same, so nothing was written and nobody was notified. The two
  checkpoint operations return the failure \<^verbatim>\<open>'Fulfillment not found'\<close> there (and
  leave the store as it is, too).
\<close>

theorem updateStatus_missing_id:
  assumes "i \<notin> set (map id_f (fulfillments s))"
  shows "updateStatus now i newStatus s = (None, s) \<and>
         updateStatusViaQR now i s = (failure ''Fulfillment not found'', s) \<and>
         validateAndCollect digest now i password s = (failure ''Fulfillment not found'', s)"
proof -
  have "find (\<lambda>f. id_f f = i) (fulfillments s) = None"
    using assms by (auto simp: find_None_iff)
  then show ?thesis
    by (simp add: updateStatus_def updateStatusViaQR_def validateAndCollect_def)
qed

theorem updateStatus_missing_id_witness:
  "''FUL-NOSUCH'' \<notin> set (map id_f (fulfillments sample_store)) \<and>
   updateStatus ''2024-05-01T12:00:00.000Z'' ''FUL-NOSUCH'' ''completed'' sample_store =
     (None, sample_store) \<and>
   updateStatusViaQR ''2024-05-01T12:00:00.000Z'' ''FUL-NOSUCH'' sample_store =
     (failure ''Fulfillment not found'', sample_store) \<and>
   validateAndCollect sample_digest ''2024-05-01T12:00:00.000Z'' ''FUL-NOSUCH'' ''550000''
     sample_store = (failure ''Fulfillment not found'', sample_store)"
proof -
  have a: "''FUL-NOSUCH'' \<notin> set (map id_f (fulfillments sample_store))"
    by (simp add: sample_store_value sample_fulfillment_fields)
  from a updateStatus_missing_id [OF a] show ?thesis by simp
qed

section \<open>Creation\<close>












section \<open>The unchecked update of the status\<close>

lemma nth_update_first:
  "m < length xs \<Longrightarrow>
   update_first P g xs ! m = (if P (xs ! m) \<and> (\<forall>j<m. \<not> P (xs ! j)) then g (xs ! m) else xs ! m)"
proof (induction xs arbitrary: m)
  case Nil
  then show ?case by simp
next
  case (Cons x xs)
  show ?case
  proof (cases m)
    case 0
    then show ?thesis by simp
  next
    case (Suc m')
    with Cons.prems have m': "m' < length xs" by simp
    show ?thesis
    proof (cases "P x")
      case True
      then have "\<not> (\<forall>j<m. \<not> P ((x # xs) ! j))" using Suc by (auto intro: exI[of _ 0])
      with True Suc show ?thesis by auto
    next
      case False
      have "(\<forall>j<m. \<not> P ((x # xs) ! j)) = (\<forall>j<m'. \<not> P (xs ! j))"
        using False Suc by (auto simp: less_Suc_eq_0_disj)
      with False Suc Cons.IH[OF m'] show ?thesis by auto
    qed
  qed
qed

lemma update_first_list_update:
  assumes "find P xs = Some x"
  shows "\<exists>k<length xs. xs ! k = x \<and> (\<forall>j<k. \<not> P (xs ! j)) \<and> update_first P g xs = xs[k := g x]"
proof -
  from assms obtain k where k: "k < length xs" "P (xs ! k)" "x = xs ! k" "\<forall>j<k. \<not> P (xs ! j)"
    by (auto simp: find_Some_iff)
  have "update_first P g xs ! m = xs[k := g x] ! m" if "m < length xs" for m
  proof -
    consider "m < k" | "m = k" | "k < m" by linarith
    then show ?thesis
    proof cases
      case 1
      with k that show ?thesis by (simp add: nth_update_first)
    next
      case 2
      with k that show ?thesis by (simp add: nth_update_first)
    next
      case 3
      with k have "\<not> (\<forall>j<m. \<not> P (xs ! j))" by blast
      with 3 that show ?thesis by (auto simp: nth_update_first)
    qed
  qed
  then have "update_first P g xs = xs[k := g x]"
    by (simp add: list_eq_iff_nth_eq length_update_first)
  with k show ?thesis by blast
qed

text \<open>
  Claim C8. For the record \<open>f\<close> that \<^verbatim>\<open>find\<close> returns for the id and for any new
  status, \<^verbatim>\<open>updateStatus\<close> replaces that one record of the collection by a record
  \<open>f'\<close> that is \<open>f\<close> with the new status and a new timeline: every other field,
  the two flags, the id, the names, the hash and the creation time among them, is the
  one of \<open>f\<close>. The new timeline has the entries of the old one, all unchanged but the
  first entry of the stage that corresponds to the new status, which is completed and
  stamped; no entry changes when no stage corresponds to the new status.
\<close>

theorem updateStatus_frame:
  assumes "find (\<lambda>f. id_f f = i) (fulfillments s) = Some f"
  shows "case updateStatus now i newStatus s of (r, s') \<Rightarrow>
     \<exists>f' k. k < length (fulfillments s) \<and> fulfillments s ! k = f \<and>
        fulfillments s' = (fulfillments s)[k := f'] \<and>
        find (\<lambda>f. id_f f = i) (fulfillments s') = Some f' \<and>
        status f' = newStatus \<and>
        qrCodeUsed f' = qrCodeUsed f \<and> passwordUsed f' = passwordUsed f \<and>
        id_f f' = id_f f \<and> itemName f' = itemName f \<and> personA f' = personA f \<and>
        personB f' = personB f \<and> personC f' = personC f \<and>
        passwordHash f' = passwordHash f \<and> createdAt f' = createdAt f \<and>
        f' = f\<lparr>status := newStatus, timeline := timeline f'\<rparr> \<and>
        length (timeline f') = length (timeline f) \<and>
        (\<forall>m<length (timeline f). timeline f' ! m =
           (if corresponding_stage newStatus = Some (stage (timeline f ! m)) \<and>
               (\<forall>j<m. stage (timeline f ! j) \<noteq> stage (timeline f ! m))
            then (timeline f ! m)\<lparr>completed := True, timestamp := Some now\<rparr>
            else timeline f ! m))"
proof -
  let ?tl = "if newStatus = ''in-transit'' then markStage ''dropped-off'' now (timeline f)
             else if newStatus = ''completed'' then markStage ''collected'' now (timeline f)
             else timeline f"
  let ?g = "\<lambda>f. f\<lparr>status := newStatus,
                   timeline :=
                     (if newStatus = ''in-transit'' then markStage ''dropped-off'' now (timeline f)
                      else if newStatus = ''completed'' then markStage ''collected'' now (timeline f)
                      else timeline f)\<rparr>"
  let ?s' = "notify (saveToStorage
               (s\<lparr>fulfillments := update_first (\<lambda>f. id_f f = i) ?g (fulfillments s)\<rparr>))"
  have run: "updateStatus now i newStatus s = (None, ?s')"
    using assms by (simp add: updateStatus_def Let_def)
  obtain k where k: "k < length (fulfillments s)" "fulfillments s ! k = f"
    "update_first (\<lambda>f. id_f f = i) ?g (fulfillments s) = (fulfillments s)[k := ?g f]"
    using update_first_list_update[OF assms, of ?g] by blast
  have idf: "id_f f = i"
    using assms by (auto simp: find_Some_iff)
  have found: "find (\<lambda>f. id_f f = i) (fulfillments ?s') = Some (?g f)"
    using find_update_first[OF assms, of ?g] idf by simp
  have len: "length ?tl = length (timeline f)"
    by (simp add: markStage_def length_update_first)
  have entries: "?tl ! m =
           (if corresponding_stage newStatus = Some (stage (timeline f ! m)) \<and>
               (\<forall>j<m. stage (timeline f ! j) \<noteq> stage (timeline f ! m))
            then (timeline f ! m)\<lparr>completed := True, timestamp := Some now\<rparr>
            else timeline f ! m)" if "m < length (timeline f)" for m
    using that by (auto simp: corresponding_stage_def markStage_def nth_update_first)
  have "k < length (fulfillments s) \<and> fulfillments s ! k = f \<and>
        fulfillments ?s' = (fulfillments s)[k := ?g f] \<and>
        find (\<lambda>f. id_f f = i) (fulfillments ?s') = Some (?g f) \<and>
        status (?g f) = newStatus \<and>
        qrCodeUsed (?g f) = qrCodeUsed f \<and> passwordUsed (?g f) = passwordUsed f \<and>
        id_f (?g f) = id_f f \<and> itemName (?g f) = itemName f \<and> personA (?g f) = personA f \<and>
        personB (?g f) = personB f \<and> personC (?g f) = personC f \<and>
        passwordHash (?g f) = passwordHash f \<and> createdAt (?g f) = createdAt f \<and>
        ?g f = f\<lparr>status := newStatus, timeline := timeline (?g f)\<rparr> \<and>
        length (timeline (?g f)) = length (timeline f) \<and>
        (\<forall>m<length (timeline f). timeline (?g f) ! m =
           (if corresponding_stage newStatus = Some (stage (timeline f ! m)) \<and>
               (\<forall>j<m. stage (timeline f ! j) \<noteq> stage (timeline f ! m))
            then (timeline f ! m)\<lparr>completed := True, timestamp := Some now\<rparr>
            else timeline f ! m))"
    using k found len entries by simp
  then show ?thesis
    unfolding run prod.case by blast
qed

theorem updateStatus_frame_witness:
  "find (\<lambda>f. id_f f = ''FUL-LX2K9A-4FZYO'') (fulfillments sample_store) = Some sample_fulfillment \<and>
   (\<exists>f'. find (\<lambda>f. id_f f = ''FUL-LX2K9A-4FZYO'')
            (fulfillments (snd (updateStatus ''2024-05-01T12:00:00.000Z'' ''FUL-LX2K9A-4FZYO''
               ''completed'' sample_store))) = Some f' \<and>
         status f' = ''completed'' \<and> \<not> qrCodeUsed f' \<and> \<not> passwordUsed f' \<and>
         passwordHash f' = passwordHash sample_fulfillment)"
proof -
  have a: "find (\<lambda>f. id_f f = ''FUL-LX2K9A-4FZYO'') (fulfillments sample_store) =
             Some sample_fulfillment"
    by (simp add: sample_store_value sample_fulfillment_fields)
  from a
    updateStatus_frame [OF a, where now = "''2024-05-01T12:00:00.000Z''"
      and newStatus = "''completed''"]
  show ?thesis by (auto split: prod.splits simp: sample_fulfillment_fields)
qed

section \<open>The text given to the drop-off checkpoint\<close>










section \<open>Loading the persisted collection\<close>

lemma string_body_step:
  assumes "string_body acc (c # cs) = Some (str, r)"
  shows "r = cs \<or> string_body (c # acc) cs = Some (str, r) \<or>
   (\<exists>e cs'. cs = e # cs' \<and> string_body (e # c # acc) cs' = Some (str, r)) \<or>
   (\<exists>e h1 h2 h3 h4 cs'. cs = e # h1 # h2 # h3 # h4 # cs' \<and>
      string_body (h4 # h3 # h2 # h1 # e # c # acc) cs' = Some (str, r))"
proof (cases "c = CHR 0x22")
  case True
  with assms show ?thesis by simp
next
  case nq: False
  show ?thesis
  proof (cases "c = CHR 0x5C")
    case False
    with nq assms have "string_body (c # acc) cs = Some (str, r)"
      by (simp split: if_splits)
    then show ?thesis by blast
  next
    case bs: True
    then obtain e cs' where cs: "cs = e # cs'"
      using assms by (cases cs) simp_all
    show ?thesis
    proof (cases "e \<in> set [CHR 0x22, CHR 0x5C, CHR ''/'', CHR ''b'', CHR ''f'', CHR ''n'',
                             CHR ''r'', CHR ''t'']")
      case True
      with assms bs have "string_body (e # c # acc) cs' = Some (str, r)"
        unfolding cs by (simp del: set_simps)
      with cs show ?thesis by blast
    next
      case False
      with assms bs have
        "\<exists>h1 h2 h3 h4 cs''. cs' = h1 # h2 # h3 # h4 # cs'' \<and>
           string_body (h4 # h3 # h2 # h1 # e # c # acc) cs'' = Some (str, r)"
        unfolding cs by (simp del: set_simps split: if_splits list.splits)
      with cs show ?thesis by blast
    qed
  qed
qed

lemma string_body_suffix:
  "string_body acc s = Some (str, r) \<Longrightarrow> \<exists>pre. pre \<noteq> [] \<and> s = pre @ r"
proof (induction s arbitrary: acc rule: length_induct)
  case (1 s)
  show ?case
  proof (cases s)
    case Nil
    with "1.prems" show ?thesis by simp
  next
    case (Cons c cs)
    have IH: "\<exists>pre. ys = pre @ r" if "length ys \<le> length cs" "string_body a ys = Some (str, r)"
      for ys a
    proof -
      have "length ys < length s" using that(1) Cons by simp
      with "1.IH" that(2) show ?thesis by blast
    qed
    from string_body_step[OF "1.prems"[unfolded Cons]]
    have "\<exists>pre. cs = pre @ r"
    proof (elim disjE exE conjE)
      assume "r = cs"
      then show ?thesis by simp
    next
      assume "string_body (c # acc) cs = Some (str, r)"
      from IH[OF _ this] show ?thesis by simp
    next
      fix e cs' assume a: "cs = e # cs'" "string_body (e # c # acc) cs' = Some (str, r)"
      have "length cs' \<le> length cs" using a(1) by simp
      from IH[OF this a(2)] obtain pre where "cs' = pre @ r" by blast
      then have "cs = (e # pre) @ r" using a(1) by simp
      then show ?thesis by blast
    next
      fix e h1 h2 h3 h4 cs'
      assume a: "cs = e # h1 # h2 # h3 # h4 # cs'"
        "string_body (h4 # h3 # h2 # h1 # e # c # acc) cs' = Some (str, r)"
      have "length cs' \<le> length cs" using a(1) by simp
      from IH[OF this a(2)] obtain pre where "cs' = pre @ r" by blast
      then have "cs = (e # h1 # h2 # h3 # h4 # pre) @ r" using a(1) by simp
      then show ?thesis by blast
    qed
    then obtain pre where "cs = pre @ r" by blast
    then have "s = (c # pre) @ r" using Cons by simp
    then show ?thesis by blast
  qed
qed

lemma string_body_shorter: "string_body acc s = Some (str, r) \<Longrightarrow> length r < length s"
proof -
  assume "string_body acc s = Some (str, r)"
  from string_body_suffix[OF this] obtain pre where "pre \<noteq> []" "s = pre @ r" by blast
  then show ?thesis by (cases pre) simp_all
qed


lemma length_skip_ws: "length (skip_ws s) \<le> length s"
  by (simp add: skip_ws_def length_dropWhile_le)

lemma digits1_shorter: "digits1 s = Some (ds, r) \<Longrightarrow> length r < length s"
proof -
  assume a: "digits1 s = Some (ds, r)"
  then have "takeWhile is_digit s \<noteq> []" "r = dropWhile is_digit s"
    by (auto simp: digits1_def split: if_splits)
  moreover have "length (takeWhile is_digit s) + length (dropWhile is_digit s) = length s"
    by (metis length_append takeWhile_dropWhile_id)
  ultimately show ?thesis by (cases "takeWhile is_digit s") auto
qed

lemma number_int_shorter: "number_int s = Some (i, r) \<Longrightarrow> length r < length s"
  by (auto simp: number_int_def split: list.splits if_splits dest: digits1_shorter)

lemma number_frac_le: "number_frac s = Some (f, r) \<Longrightarrow> length r \<le> length s"
  by (auto simp: number_frac_def split: list.splits if_splits option.splits
      dest!: digits1_shorter)

lemma number_exp_le: "number_exp s = Some (e, r) \<Longrightarrow> length r \<le> length s"
  by (auto simp: number_exp_def split: list.splits if_splits option.splits
      dest!: digits1_shorter)

lemma number_shorter: "number s = Some (num, r) \<Longrightarrow> length r < length s"
  by (auto simp: number_def split: list.splits if_splits option.splits
      dest!: number_int_shorter number_frac_le number_exp_le)

lemma literal_shorter: "literal w s = Some r \<Longrightarrow> w \<noteq> [] \<Longrightarrow> length r < length s"
  by (cases s) (auto simp: literal_def split: if_splits)

lemma parse_value_Parsed:
  assumes "parse_value (Suc n) s = Parsed v r"
  shows "(\<exists>cs. s = CHR ''['' # cs \<and> skip_ws cs = CHR '']'' # r) \<or>
         (\<exists>cs t. s = CHR ''['' # cs \<and> skip_ws cs = t \<and> parse_elements n [] t = Parsed v r) \<or>
         (\<exists>cs. s = CHR ''{'' # cs \<and> skip_ws cs = CHR ''}'' # r) \<or>
         (\<exists>cs t. s = CHR ''{'' # cs \<and> skip_ws cs = t \<and> parse_members n [] t = Parsed v r) \<or>
         (\<exists>cs str. s = CHR 0x22 # cs \<and> string_body [] cs = Some (str, r)) \<or>
         literal ''null'' s = Some r \<or> literal ''true'' s = Some r \<or>
         literal ''false'' s = Some r \<or> (\<exists>num. number s = Some (num, r))"
  using assms by (auto split: list.splits if_splits option.splits)

lemma parse_elements_Parsed:
  assumes "parse_elements (Suc n) acc s = Parsed v r"
  shows "\<exists>v0 r0. parse_value n s = Parsed v0 r0 \<and>
           (skip_ws r0 = CHR '']'' # r \<or>
            (\<exists>r1. skip_ws r0 = CHR '','' # r1 \<and>
               parse_elements n (v0 # acc) (skip_ws r1) = Parsed v r))"
  using assms by (auto split: list.splits if_splits parse.splits)

lemma parse_members_Parsed:
  assumes "parse_members (Suc n) acc s = Parsed v r"
  shows "\<exists>cs key r0 r1 v0 r2. s = CHR 0x22 # cs \<and> string_body [] cs = Some (key, r0) \<and>
           skip_ws r0 = CHR '':'' # r1 \<and> parse_value n (skip_ws r1) = Parsed v0 r2 \<and>
           (skip_ws r2 = CHR ''}'' # r \<or>
            (\<exists>r3. skip_ws r2 = CHR '','' # r3 \<and>
               parse_members n ((key, v0) # acc) (skip_ws r3) = Parsed v r))"
  using assms by (auto split: list.splits if_splits option.splits parse.splits)


lemma skip_ws_Cons_shorter: "skip_ws s = c # r \<Longrightarrow> length r < length s"
  using length_skip_ws[of s] by simp

lemma parse_shorter_all:
  "(\<forall>s v r. parse_value n s = Parsed v r \<longrightarrow> length r < length s) \<and>
   (\<forall>acc s v r. parse_elements n acc s = Parsed v r \<longrightarrow> length r < length s) \<and>
   (\<forall>acc s v r. parse_members n acc s = Parsed v r \<longrightarrow> length r < length s)"
proof (induction n)
  case 0
  show ?case by simp
next
  case (Suc n)
  then have IHv: "\<And>s v r. parse_value n s = Parsed v r \<Longrightarrow> length r < length s"
    and IHe: "\<And>acc s v r. parse_elements n acc s = Parsed v r \<Longrightarrow> length r < length s"
    and IHm: "\<And>acc s v r. parse_members n acc s = Parsed v r \<Longrightarrow> length r < length s"
    by blast+
  have v: "length r < length s" if "parse_value (Suc n) s = Parsed v r" for s v r
    using parse_value_Parsed[OF that]
  proof (elim disjE exE conjE)
    fix cs assume "s = CHR ''['' # cs" "skip_ws cs = CHR '']'' # r"
    then show ?thesis using skip_ws_Cons_shorter[of cs] by simp
  next
    fix cs t assume "s = CHR ''['' # cs" "skip_ws cs = t" "parse_elements n [] t = Parsed v r"
    then show ?thesis using IHe[of "[]" t v r] length_skip_ws[of cs] by simp
  next
    fix cs assume "s = CHR ''{'' # cs" "skip_ws cs = CHR ''}'' # r"
    then show ?thesis using skip_ws_Cons_shorter[of cs] by simp
  next
    fix cs t assume "s = CHR ''{'' # cs" "skip_ws cs = t" "parse_members n [] t = Parsed v r"
    then show ?thesis using IHm[of "[]" t v r] length_skip_ws[of cs] by simp
  next
    fix cs str assume "s = CHR 0x22 # cs" "string_body [] cs = Some (str, r)"
    then show ?thesis using string_body_shorter[of "[]" cs str r] by simp
  next
    assume "literal ''null'' s = Some r"
    then show ?thesis by (rule literal_shorter) simp
  next
    assume "literal ''true'' s = Some r"
    then show ?thesis by (rule literal_shorter) simp
  next
    assume "literal ''false'' s = Some r"
    then show ?thesis by (rule literal_shorter) simp
  next
    fix num assume "number s = Some (num, r)"
    then show ?thesis by (rule number_shorter)
  qed
  have e: "length r < length s" if "parse_elements (Suc n) acc s = Parsed v r" for acc s v r
  proof -
    from parse_elements_Parsed[OF that] obtain v0 r0 where
      p: "parse_value n s = Parsed v0 r0" and
      q: "skip_ws r0 = CHR '']'' # r \<or>
          (\<exists>r1. skip_ws r0 = CHR '','' # r1 \<and>
             parse_elements n (v0 # acc) (skip_ws r1) = Parsed v r)"
      by blast
    have r0: "length r0 < length s" using IHv[OF p] .
    from q show ?thesis
    proof (elim disjE exE conjE)
      assume "skip_ws r0 = CHR '']'' # r"
      from skip_ws_Cons_shorter[OF this] r0 show ?thesis by linarith
    next
      fix r1 assume a: "skip_ws r0 = CHR '','' # r1"
        "parse_elements n (v0 # acc) (skip_ws r1) = Parsed v r"
      from skip_ws_Cons_shorter[OF a(1)] IHe[OF a(2)] length_skip_ws[of r1] r0
      show ?thesis by linarith
    qed
  qed
  have m: "length r < length s" if "parse_members (Suc n) acc s = Parsed v r" for acc s v r
  proof -
    from parse_members_Parsed[OF that] obtain cs key r0 r1 v0 r2 where
      s: "s = CHR 0x22 # cs" and k: "string_body [] cs = Some (key, r0)" and
      c: "skip_ws r0 = CHR '':'' # r1" and p: "parse_value n (skip_ws r1) = Parsed v0 r2" and
      q: "skip_ws r2 = CHR ''}'' # r \<or>
          (\<exists>r3. skip_ws r2 = CHR '','' # r3 \<and>
             parse_members n ((key, v0) # acc) (skip_ws r3) = Parsed v r)"
      by blast
    have "length s = Suc (length cs)" using s by simp
    with string_body_shorter[OF k] skip_ws_Cons_shorter[OF c] IHv[OF p] length_skip_ws[of r1]
    have r2: "length r2 < length s" by linarith
    from q show ?thesis
    proof (elim disjE exE conjE)
      assume "skip_ws r2 = CHR ''}'' # r"
      from skip_ws_Cons_shorter[OF this] r2 show ?thesis by linarith
    next
      fix r3 assume a: "skip_ws r2 = CHR '','' # r3"
        "parse_members n ((key, v0) # acc) (skip_ws r3) = Parsed v r"
      from skip_ws_Cons_shorter[OF a(1)] IHm[OF a(2)] length_skip_ws[of r3] r2
      show ?thesis by linarith
    qed
  qed
  from v e m show ?case by blast
qed

lemma parse_value_shorter: "parse_value n s = Parsed v r \<Longrightarrow> length r < length s"
  using parse_shorter_all[of n] by blast


lemma parse_value_OutOfFuel:
  assumes "parse_value (Suc n) s = OutOfFuel"
  shows "\<exists>c cs. s = c # cs \<and>
           (parse_elements n [] (skip_ws cs) = OutOfFuel \<or>
            parse_members n [] (skip_ws cs) = OutOfFuel)"
  using assms by (auto split: list.splits if_splits option.splits)

lemma parse_elements_OutOfFuel:
  assumes "parse_elements (Suc n) acc s = OutOfFuel"
  shows "parse_value n s = OutOfFuel \<or>
         (\<exists>v0 r0 r1. parse_value n s = Parsed v0 r0 \<and> skip_ws r0 = CHR '','' # r1 \<and>
            parse_elements n (v0 # acc) (skip_ws r1) = OutOfFuel)"
  using assms by (auto split: list.splits if_splits parse.splits)

lemma parse_members_OutOfFuel:
  assumes "parse_members (Suc n) acc s = OutOfFuel"
  shows "\<exists>cs key r0 r1. s = CHR 0x22 # cs \<and> string_body [] cs = Some (key, r0) \<and>
           skip_ws r0 = CHR '':'' # r1 \<and>
           (parse_value n (skip_ws r1) = OutOfFuel \<or>
            (\<exists>v0 r2 r3. parse_value n (skip_ws r1) = Parsed v0 r2 \<and>
               skip_ws r2 = CHR '','' # r3 \<and>
               parse_members n ((key, v0) # acc) (skip_ws r3) = OutOfFuel))"
  using assms by (auto split: list.splits if_splits option.splits parse.splits)

lemma enough_fuel_all:
  "(\<forall>s. 2 * length s < n \<longrightarrow> parse_value n s \<noteq> OutOfFuel) \<and>
   (\<forall>acc s. 2 * length s + 1 < n \<longrightarrow> parse_elements n acc s \<noteq> OutOfFuel) \<and>
   (\<forall>acc s. 2 * length s + 1 < n \<longrightarrow> parse_members n acc s \<noteq> OutOfFuel)"
proof (induction n)
  case 0
  show ?case by simp
next
  case (Suc n)
  then have IHv: "\<And>s. 2 * length s < n \<Longrightarrow> parse_value n s \<noteq> OutOfFuel"
    and IHe: "\<And>acc s. 2 * length s + 1 < n \<Longrightarrow> parse_elements n acc s \<noteq> OutOfFuel"
    and IHm: "\<And>acc s. 2 * length s + 1 < n \<Longrightarrow> parse_members n acc s \<noteq> OutOfFuel"
    by blast+
  have v: "parse_value (Suc n) s \<noteq> OutOfFuel" if f: "2 * length s < Suc n" for s
  proof
    assume "parse_value (Suc n) s = OutOfFuel"
    from parse_value_OutOfFuel[OF this] obtain c cs where
      s: "s = c # cs" and
      o: "parse_elements n [] (skip_ws cs) = OutOfFuel \<or>
          parse_members n [] (skip_ws cs) = OutOfFuel"
      by blast
    have "2 * length (skip_ws cs) + 1 < n"
      using f s length_skip_ws[of cs] by simp
    with o IHe[of "skip_ws cs" "[]"] IHm[of "skip_ws cs" "[]"] show False by blast
  qed
  have e: "parse_elements (Suc n) acc s \<noteq> OutOfFuel" if f: "2 * length s + 1 < Suc n"
    for acc s
  proof
    assume "parse_elements (Suc n) acc s = OutOfFuel"
    from parse_elements_OutOfFuel[OF this] show False
    proof (elim disjE exE conjE)
      assume "parse_value n s = OutOfFuel"
      moreover have "2 * length s < n" using f by simp
      ultimately show False using IHv by blast
    next
      fix v0 r0 r1
      assume a: "parse_value n s = Parsed v0 r0" "skip_ws r0 = CHR '','' # r1"
        "parse_elements n (v0 # acc) (skip_ws r1) = OutOfFuel"
      from parse_value_shorter[OF a(1)] skip_ws_Cons_shorter[OF a(2)] length_skip_ws[of r1] f
      have "2 * length (skip_ws r1) + 1 < n" by linarith
      with a(3) IHe show False by blast
    qed
  qed
  have m: "parse_members (Suc n) acc s \<noteq> OutOfFuel" if f: "2 * length s + 1 < Suc n"
    for acc s
  proof
    assume "parse_members (Suc n) acc s = OutOfFuel"
    from parse_members_OutOfFuel[OF this] obtain cs key r0 r1 where
      s: "s = CHR 0x22 # cs" and k: "string_body [] cs = Some (key, r0)" and
      c: "skip_ws r0 = CHR '':'' # r1" and
      o: "parse_value n (skip_ws r1) = OutOfFuel \<or>
          (\<exists>v0 r2 r3. parse_value n (skip_ws r1) = Parsed v0 r2 \<and>
             skip_ws r2 = CHR '','' # r3 \<and>
             parse_members n ((key, v0) # acc) (skip_ws r3) = OutOfFuel)"
      by blast
    have ls: "length s = Suc (length cs)" using s by simp
    with string_body_shorter[OF k] skip_ws_Cons_shorter[OF c] length_skip_ws[of r1] f
    have r1: "length (skip_ws r1) + 3 \<le> length s" by linarith
    from o show False
    proof (elim disjE exE conjE)
      assume "parse_value n (skip_ws r1) = OutOfFuel"
      moreover have "2 * length (skip_ws r1) < n" using r1 f by linarith
      ultimately show False using IHv by blast
    next
      fix v0 r2 r3
      assume a: "parse_value n (skip_ws r1) = Parsed v0 r2" "skip_ws r2 = CHR '','' # r3"
        "parse_members n ((key, v0) # acc) (skip_ws r3) = OutOfFuel"
      from parse_value_shorter[OF a(1)] skip_ws_Cons_shorter[OF a(2)] length_skip_ws[of r3] r1 f
      have "2 * length (skip_ws r3) + 1 < n" by linarith
      with a(3) IHm show False by blast
    qed
  qed
  from v e m show ?case by blast
qed

lemma JSON_parse_enough_fuel: "parse_value (2 * length inp + 1) (skip_ws inp) \<noteq> OutOfFuel"
proof -
  have "2 * length (skip_ws inp) < 2 * length inp + 1"
    using length_skip_ws[of inp] by simp
  with enough_fuel_all[of "2 * length inp + 1"] show ?thesis by blast
qed

text \<open>
  Claim C7, as the code has it. \<^verbatim>\<open>loadFromStorage\<close> has no handler around
  \<^verbatim>\<open>JSON.parse\<close>: stored text that is not JSON makes it raise the
  \<^verbatim>\<open>SyntaxError\<close> of \<^verbatim>\<open>JSON.parse\<close>, and stored JSON that is not an array is
  returned as it is (the examples after the theorem). What holds: when nothing is
  stored, or the empty text, it returns the empty collection; for any other stored text
  it returns what \<^verbatim>\<open>JSON.parse\<close> returns for that text, and raises exactly when
  \<^verbatim>\<open>JSON.parse\<close> does.
\<close>

theorem loadFromStorage_cases:
  "loadFromStorage None = Inr (JArray []) \<and>
   loadFromStorage (Some []) = Inr (JArray []) \<and>
   (inp \<noteq> [] \<longrightarrow> loadFromStorage (Some inp) = JSON_parse inp) \<and>
   (loadFromStorage stored = Inl SyntaxError \<longleftrightarrow>
      (\<exists>t. stored = Some t \<and> t \<noteq> [] \<and> JSON_parse t = Inl SyntaxError))"
  by (cases stored) (auto simp: loadFromStorage_def)

theorem loadFromStorage_cases_witness:
  "''[true]'' \<noteq> [] \<and>
   loadFromStorage (Some ''[true]'') = JSON_parse ''[true]'' \<and>
   JSON_parse ''[true]'' = Inr (JArray [JBool True])"
proof -
  have a: "''[true]'' \<noteq> []" by simp
  have b: "JSON_parse ''[true]'' = Inr (JArray [JBool True])"
    by code_simp
  from a b loadFromStorage_cases [of "''[true]''"] show ?thesis by blast
qed

text \<open>
  The claim as stated fails: for the stored text \<^verbatim>\<open>not json\<close> the call raises, and
  for the stored text \<^verbatim>\<open>{}\<close> it returns an object, not a collection.
\<close>

theorem loadFromStorage_counterexample:
  "loadFromStorage (Some ''not json'') = Inl SyntaxError \<and>
   loadFromStorage (Some ''{}'') = Inr (JObject [])"
  by code_simp

end
